theory Spec2Isabelle
  imports Complex_Main "HOL-Library.Sublist"
begin

section \<open>Chat messages\<close>

text \<open>
  The interface \<^verbatim>\<open>ChatMessage\<close> of the chat window. The two optional flags are
  \<open>bool option\<close>: \<open>None\<close> is a field that the object literal leaves out
  (\<^verbatim>\<open>undefined\<close>). Strings are lists of code units; \<^verbatim>\<open>s.length\<close> is \<open>length\<close> and
  \<^verbatim>\<open>s.slice(0, n)\<close> is \<open>take n\<close>. A \<open>char\<close> holds a code unit below 256, so the model
  covers the strings made of such units.
\<close>

datatype sender_kind = User | Ai

record ChatMessage =
  sender :: sender_kind
  "text" :: string
  timestamp :: string
  displayText :: string
  isImage :: "bool option"
  isLoading :: "bool option"

text \<open>Truthiness of an optional boolean, as \<^verbatim>\<open>!msg.isLoading\<close> reads it.\<close>

fun truthy :: "bool option \<Rightarrow> bool" where
  "truthy None = False"
| "truthy (Some b) = b"

section \<open>Runtime string operations\<close>

text \<open>
  \<^verbatim>\<open>String.prototype.trim\<close> strips white space and line terminators from both ends.
  The code units below are the ones of that class that a \<open>char\<close> can hold.
\<close>

definition isWhiteSpace :: "char \<Rightarrow> bool" where
  "isWhiteSpace c =
     (c \<in> set [CHR 0x09, CHR 0x0A, CHR 0x0B, CHR 0x0C, CHR 0x0D, CHR 0x20, CHR 0xA0])"

definition trim :: "string \<Rightarrow> string" where
  "trim s = rev (dropWhile isWhiteSpace (rev (dropWhile isWhiteSpace s)))"

text \<open>\<^verbatim>\<open>Date.now().toString()\<close>: the decimal numeral of a count of milliseconds.\<close>

fun toString :: "nat \<Rightarrow> string" where
  "toString n =
     (if n < 10 then [char_of (48 + n)]
      else toString (n div 10) @ [char_of (48 + n mod 10)])"

declare toString.simps [simp del]

section \<open>State of the chat window\<close>

text \<open>The three \<^verbatim>\<open>useState\<close> cells of \<^verbatim>\<open>ChatWindow\<close>, with their initial values.\<close>

record ChatWindow =
  messages :: "ChatMessage list"
  input :: string
  isProcessing :: bool

definition initialWindow :: ChatWindow where
  "initialWindow = \<lparr>messages = [], input = [], isProcessing = False\<rparr>"

section \<open>The typing effect\<close>

text \<open>
  The condition under which the effect on \<^verbatim>\<open>[messages]\<close> arms its 20 ms timer. For an
  empty list \<^verbatim>\<open>messages[messages.length - 1]\<close> is \<^verbatim>\<open>undefined\<close> and the optional chain
  makes the condition false.
\<close>

definition reveal_due :: "ChatMessage list \<Rightarrow> bool" where
  "reveal_due ms =
     (case ms of
        [] \<Rightarrow> False
      | _ # _ \<Rightarrow>
          sender (last ms) = Ai \<and> \<not> truthy (isLoading (last ms)) \<and>
          \<not> truthy (isImage (last ms)) \<and>
          length (displayText (last ms)) < length (text (last ms)))"

text \<open>
  The updater that the timer passes to \<^verbatim>\<open>setMessages\<close>. \<open>lastMessage\<close> is the message
  captured by the effect, \<open>prev\<close> the list the updater receives. On an empty \<open>prev\<close> the
  source reads \<^verbatim>\<open>displayText\<close> of \<^verbatim>\<open>undefined\<close> and throws: \<open>None\<close>.
\<close>

definition typing_update :: "ChatMessage \<Rightarrow> ChatMessage list \<Rightarrow> ChatMessage list option" where
  "typing_update lastMessage prev =
     (case prev of
        [] \<Rightarrow> None
      | _ # _ \<Rightarrow>
          Some (prev[length prev - 1 :=
                  (last prev)\<lparr>displayText :=
                     take (length (displayText (last prev)) + 1) (text lastMessage)\<rparr>]))"

text \<open>
  One firing of the timer. The effect's cleanup clears the timer whenever \<^verbatim>\<open>messages\<close>
  changes, so a timer that fires was armed for the current list: the captured message is
  the current last one and \<open>prev\<close> is the current list. With no timer armed nothing fires.
\<close>

definition typing_tick :: "ChatWindow \<Rightarrow> ChatWindow" where
  "typing_tick w =
     (if reveal_due (messages w) then
        (case typing_update (last (messages w)) (messages w) of
           None \<Rightarrow> w
         | Some ms \<Rightarrow> w\<lparr>messages := ms\<rparr>)
      else w)"

section \<open>sendMessage\<close>

text \<open>
  The request handed to \<^verbatim>\<open>fetch\<close>: the URL, the method, the content type header and the
  \<^verbatim>\<open>message\<close> field of the JSON body.
\<close>

record request =
  url :: string
  http_method :: string
  content_type :: string
  body_message :: string

definition userMessage :: "string \<Rightarrow> nat \<Rightarrow> ChatMessage" where
  "userMessage inp now =
     \<lparr>sender = User, text = inp, timestamp = toString now, displayText = inp,
      isImage = None, isLoading = None\<rparr>"

definition loadingMessage :: ChatMessage where
  "loadingMessage =
     \<lparr>sender = Ai, text = [], timestamp = [], displayText = [],
      isImage = None, isLoading = Some True\<rparr>"

definition aiMessage :: "string \<Rightarrow> string \<Rightarrow> nat \<Rightarrow> ChatMessage" where
  "aiMessage influencerName response now =
     \<lparr>sender = Ai, text = response, timestamp = toString now,
      displayText = (if influencerName = ''artifex'' then [] else []),
      isImage = Some (influencerName = ''artifex''), isLoading = None\<rparr>"

definition errorMessage :: "nat \<Rightarrow> ChatMessage" where
  "errorMessage now =
     \<lparr>sender = Ai, text = ''Failed to generate response. Please try again.'',
      timestamp = toString now,
      displayText = ''Failed to generate response. Please try again.'',
      isImage = None, isLoading = None\<rparr>"

definition fetch_request :: "string \<Rightarrow> string \<Rightarrow> request" where
  "fetch_request influencerName inp =
     \<lparr>url = ''/api/ai/'' @ influencerName, http_method = ''POST'',
      content_type = ''application/json'', body_message = inp\<rparr>"

text \<open>
  The part of \<^verbatim>\<open>sendMessage\<close> that runs before the \<^verbatim>\<open>await\<close>: the guard, the three
  state updates and the call of \<^verbatim>\<open>fetch\<close>. It returns the new state and the request it
  issued, \<open>None\<close> when the guard returned early. \<open>now\<close> is the value of \<^verbatim>\<open>Date.now()\<close>.
\<close>

definition sendMessage_begin ::
  "string \<Rightarrow> nat \<Rightarrow> ChatWindow \<Rightarrow> ChatWindow \<times> request option" where
  "sendMessage_begin influencerName now w =
     (if trim (input w) = [] \<or> isProcessing w then (w, None)
      else
        (w\<lparr>isProcessing := True,
           messages := messages w @ [userMessage (input w) now, loadingMessage],
           input := []\<rparr>,
         Some (fetch_request influencerName (input w))))"

text \<open>
  What \<^verbatim>\<open>fetch\<close> and \<^verbatim>\<open>res.json()\<close> can come back with: a rejected promise, or a response
  with a status code and, when its body parses, the \<^verbatim>\<open>response\<close> field of the JSON
  (taken to be a string, as the interface types it). \<^verbatim>\<open>res.ok\<close> is a status from 200 to
  299. \<open>try_block\<close> is the value \<^verbatim>\<open>data.response\<close> that the \<^verbatim>\<open>try\<close> block reaches, \<open>None\<close>
  when it throws.
\<close>

datatype fetch_outcome = Rejected | Responded nat "string option"

fun try_block :: "fetch_outcome \<Rightarrow> string option" where
  "try_block Rejected = None"
| "try_block (Responded status body) =
     (if 200 \<le> status \<and> status \<le> 299 then body else None)"

text \<open>
  The part of \<^verbatim>\<open>sendMessage\<close> after the \<^verbatim>\<open>await\<close>: the replacement of the placeholder
  on success, the \<^verbatim>\<open>catch\<close> block otherwise, and the \<^verbatim>\<open>finally\<close> block.
\<close>

definition sendMessage_settle ::
  "string \<Rightarrow> fetch_outcome \<Rightarrow> nat \<Rightarrow> ChatWindow \<Rightarrow> ChatWindow" where
  "sendMessage_settle influencerName outcome now w =
     (case try_block outcome of
        Some response \<Rightarrow>
          w\<lparr>messages :=
               map (\<lambda>msg. if timestamp msg = timestamp loadingMessage
                          then aiMessage influencerName response now else msg)
                   (messages w),
            isProcessing := False\<rparr>
      | None \<Rightarrow>
          w\<lparr>messages :=
               filter (\<lambda>msg. timestamp msg \<noteq> timestamp loadingMessage) (messages w)
               @ [errorMessage now],
            isProcessing := False\<rparr>)"

section \<open>The widget as a transition system\<close>

text \<open>
  The events that change the widget: the user edits the text area (disabled while a
  request is processed), the send action is invoked, the oldest outstanding request
  settles, the typing timer fires. \<open>inflight\<close> lists the requests issued and not yet
  settled. The runtime has one thread: the handler of an event, and the part of
  \<^verbatim>\<open>sendMessage\<close> behind the \<^verbatim>\<open>await\<close>, run to their end, and the component is
  rendered again before the next event, so every handler reads the state its predecessor
  left. The prop \<^verbatim>\<open>influencerName\<close> is the same throughout a run.
\<close>

record widget =
  window :: ChatWindow
  inflight :: "request list"

datatype event =
    Edit string
  | Send nat
  | Settle fetch_outcome nat
  | Tick

definition initialWidget :: widget where
  "initialWidget = \<lparr>window = initialWindow, inflight = []\<rparr>"

fun step :: "string \<Rightarrow> widget \<Rightarrow> event \<Rightarrow> widget" where
  "step influencerName s (Edit v) =
     (if isProcessing (window s) then s else s\<lparr>window := (window s)\<lparr>input := v\<rparr>\<rparr>)"
| "step influencerName s (Send now) =
     (case sendMessage_begin influencerName now (window s) of
        (w, None) \<Rightarrow> s\<lparr>window := w\<rparr>
      | (w, Some r) \<Rightarrow> \<lparr>window = w, inflight = inflight s @ [r]\<rparr>)"
| "step influencerName s (Settle outcome now) =
     (case inflight s of
        [] \<Rightarrow> s
      | r # rs \<Rightarrow>
          \<lparr>window = sendMessage_settle influencerName outcome now (window s),
           inflight = rs\<rparr>)"
| "step influencerName s Tick = s\<lparr>window := typing_tick (window s)\<rparr>"

definition run :: "string \<Rightarrow> event list \<Rightarrow> widget" where
  "run influencerName es = foldl (step influencerName) initialWidget es"

text \<open>
  Predicates used to state what holds in every state the widget can reach. A message is
  \<open>placeholder_free\<close> when it is neither matched by the sentinel test of
  \<open>sendMessage_settle\<close> nor flagged as loading; \<open>textual_reply\<close> is the class of messages
  the typing effect animates; \<open>settles\<close> singles out the events that end a request,
  \<open>quiet\<close> the events that never add a message. A message is \<open>stamped\<close> when it is
  flagged as loading or its timestamp is the numeral of some clock value.
\<close>

definition placeholder_free :: "ChatMessage \<Rightarrow> bool" where
  "placeholder_free m = (timestamp m \<noteq> [] \<and> \<not> truthy (isLoading m))"

definition revealed_prefix :: "ChatMessage \<Rightarrow> bool" where
  "revealed_prefix m = prefix (displayText m) (text m)"

definition textual_reply :: "ChatMessage \<Rightarrow> bool" where
  "textual_reply m = (sender m = Ai \<and> \<not> truthy (isLoading m) \<and> \<not> truthy (isImage m))"

definition widget_inv :: "widget \<Rightarrow> bool" where
  "widget_inv s =
     (list_all revealed_prefix (messages (window s)) \<and>
      (if isProcessing (window s)
       then length (inflight s) = 1 \<and> messages (window s) \<noteq> [] \<and>
            last (messages (window s)) = loadingMessage \<and>
            list_all placeholder_free (butlast (messages (window s)))
       else inflight s = [] \<and> list_all placeholder_free (messages (window s))))"

fun settles :: "event \<Rightarrow> bool" where
  "settles (Settle outcome now) = True"
| "settles e = False"

fun quiet :: "event \<Rightarrow> bool" where
  "quiet (Edit v) = True"
| "quiet Tick = True"
| "quiet e = False"


section \<open>Text formatting\<close>

text \<open>
  \<^verbatim>\<open>formatResponseText\<close> splits on the regular expression
  \<^verbatim>\<open>/(\*\*.*?\*\*|\*.*?\*)/g\<close> and maps each part to an element.

  The dot matches every code unit but a line terminator. \<open>lazy_dots closer s\<close> is the
  number of code units that the lazy \<^verbatim>\<open>.*?\<close> takes at the start of \<open>s\<close> when \<open>closer\<close> has
  to follow it: the least one, found by extending one unit at a time; \<open>None\<close> when no
  extension is followed by \<open>closer\<close>.
\<close>

definition isLineTerminator :: "char \<Rightarrow> bool" where
  "isLineTerminator c = (c = CHR 0x0A \<or> c = CHR 0x0D)"

fun lazy_dots :: "string \<Rightarrow> string \<Rightarrow> nat option" where
  "lazy_dots closer [] = (if closer = [] then Some 0 else None)"
| "lazy_dots closer (c # cs) =
     (if prefix closer (c # cs) then Some 0
      else if isLineTerminator c then None
      else map_option Suc (lazy_dots closer cs))"

text \<open>
  The length of the match of \<^verbatim>\<open>d.*?d\<close> at the start of \<open>s\<close>, for a literal delimiter \<open>d\<close>,
  and the match of the whole pattern: the alternative with two asterisks is tried first,
  through all its extensions, before the alternative with one.
\<close>

definition match_delimited :: "string \<Rightarrow> string \<Rightarrow> nat option" where
  "match_delimited d s =
     (if prefix d s
      then map_option (\<lambda>k. length d + k + length d) (lazy_dots d (drop (length d) s))
      else None)"

definition match_here :: "string \<Rightarrow> nat option" where
  "match_here s =
     (case match_delimited ''**'' s of
        Some n \<Rightarrow> Some n
      | None \<Rightarrow> match_delimited ''*'' s)"

text \<open>
  \<^verbatim>\<open>String.prototype.split\<close> with this pattern. \<open>piece\<close> is the text since the end of the
  last match, the second argument the text from the scan position on. Where the pattern
  matches, the piece and the match (the capture group) are emitted and the scan goes on
  behind the match; elsewhere the scan moves one code unit on; at the end the last piece
  is emitted. A match has at least two code units, so the rule of \<^verbatim>\<open>split\<close> for empty
  matches never applies.
\<close>

function split_loop :: "string \<Rightarrow> string \<Rightarrow> string list" where
  "split_loop piece [] = [piece]"
| "split_loop piece (c # cs) =
     (case match_here (c # cs) of
        None \<Rightarrow> split_loop (piece @ [c]) cs
      | Some n \<Rightarrow> piece # take n (c # cs) # split_loop [] (drop n (c # cs)))"
  by pat_completeness auto
termination
  by (relation "measure (\<lambda>(piece, s). length s)")
     (auto simp add: match_here_def match_delimited_def split: option.splits if_splits)

definition split_emphasis :: "string \<Rightarrow> string list" where
  "split_emphasis s = split_loop [] s"

text \<open>
  \<^verbatim>\<open>startsWith\<close>, \<^verbatim>\<open>endsWith\<close> and \<^verbatim>\<open>part.slice(a, -b)\<close>: the slice runs from index
  \<open>min a (length s)\<close> to index \<open>length s - b\<close> (0 when \<open>b\<close> exceeds the length) and is empty
  when the end is not behind the start.
\<close>

definition startsWith :: "string \<Rightarrow> string \<Rightarrow> bool" where
  "startsWith p s = (take (length p) s = p)"

definition endsWith :: "string \<Rightarrow> string \<Rightarrow> bool" where
  "endsWith p s = (length p \<le> length s \<and> drop (length s - length p) s = p)"

definition slice :: "nat \<Rightarrow> nat \<Rightarrow> string \<Rightarrow> string" where
  "slice a b s = drop a (take (length s - b) s)"

text \<open>
  The elements the formatter returns, each with its text content: \<^verbatim>\<open><strong>\<close>, \<^verbatim>\<open><em>\<close>
  and \<^verbatim>\<open><span>\<close>. The \<^verbatim>\<open>key\<close> of an element is its position in the list.
\<close>

datatype element = Strong string | Em string | Span string

definition render_part :: "string \<Rightarrow> element" where
  "render_part part =
     (if startsWith ''**'' part \<and> endsWith ''**'' part then Strong (slice 2 2 part)
      else if startsWith ''*'' part \<and> endsWith ''*'' part then Em (slice 1 1 part)
      else Span part)"

definition formatResponseText :: "string \<Rightarrow> element list" where
  "formatResponseText t = map render_part (split_emphasis t)"

section \<open>The time-of-day formatter\<close>

text \<open>
  \<^verbatim>\<open>formatTimestamp\<close> calls \<^verbatim>\<open>Number\<close>, \<^verbatim>\<open>new Date\<close> and \<^verbatim>\<open>toLocaleTimeString\<close> of the
  runtime. What the model takes from the language standard:
  \<^item> \<^verbatim>\<open>Number(s)\<close> is a number for every string and never throws; it is \<^verbatim>\<open>NaN\<close> exactly
    when \<open>s\<close>, with white space stripped from both ends, is neither empty nor a numeric
    literal (\<open>isStringNumericLiteral\<close> below follows the grammar). The value of a literal,
    rounded as the runtime rounds it, is the parameter \<open>literal_value\<close>.
  \<^item> \<^verbatim>\<open>new Date(v)\<close> never throws; the date is invalid when \<open>v\<close> is not finite or beyond
    8.64e15 ms in magnitude, else it holds \<open>v\<close> truncated to an integer.
  \<^item> \<^verbatim>\<open>toLocaleTimeString\<close> with these options never throws; on an invalid date it
    returns the string \<^verbatim>\<open>Invalid Date\<close>. The rendering of a valid date depends on the
    locale and the time zone: the parameter \<open>hhmm\<close>.
\<close>

datatype number = NaN | PosInfinity | NegInfinity | Finite rat


definition isDecimalDigit :: "char \<Rightarrow> bool" where
  "isDecimalDigit c = (c \<in> set ''0123456789'')"

definition isDecimalDigits :: "string \<Rightarrow> bool" where
  "isDecimalDigits s = (s \<noteq> [] \<and> list_all isDecimalDigit s)"

definition isSign :: "char \<Rightarrow> bool" where
  "isSign c = (c = CHR ''+'' \<or> c = CHR ''-'')"

definition isExponentPart :: "string \<Rightarrow> bool" where
  "isExponentPart s =
     (case s of
        [] \<Rightarrow> False
      | e # r \<Rightarrow>
          (e = CHR ''e'' \<or> e = CHR ''E'') \<and>
          (isDecimalDigits r \<or>
           (case r of [] \<Rightarrow> False | c # ds \<Rightarrow> isSign c \<and> isDecimalDigits ds)))"

definition isStrUnsignedDecimalLiteral :: "string \<Rightarrow> bool" where
  "isStrUnsignedDecimalLiteral s =
     (s = ''Infinity'' \<or>
      (case dropWhile isDecimalDigit s of
         [] \<Rightarrow> s \<noteq> []
       | c # r \<Rightarrow>
           if c = CHR ''.''
           then (takeWhile isDecimalDigit s \<noteq> [] \<or> takeWhile isDecimalDigit r \<noteq> []) \<and>
                (dropWhile isDecimalDigit r = [] \<or>
                 isExponentPart (dropWhile isDecimalDigit r))
           else takeWhile isDecimalDigit s \<noteq> [] \<and> isExponentPart (c # r)))"

definition isStrDecimalLiteral :: "string \<Rightarrow> bool" where
  "isStrDecimalLiteral s =
     (isStrUnsignedDecimalLiteral s \<or>
      (case s of [] \<Rightarrow> False | c # r \<Rightarrow> isSign c \<and> isStrUnsignedDecimalLiteral r))"

definition isNonDecimalIntegerLiteral :: "string \<Rightarrow> bool" where
  "isNonDecimalIntegerLiteral s =
     (case s of
        z # x # ds \<Rightarrow>
          z = CHR ''0'' \<and> ds \<noteq> [] \<and>
          (if x = CHR ''x'' \<or> x = CHR ''X''
             then list_all (\<lambda>c. c \<in> set ''0123456789abcdefABCDEF'') ds
           else if x = CHR ''o'' \<or> x = CHR ''O''
             then list_all (\<lambda>c. c \<in> set ''01234567'') ds
           else if x = CHR ''b'' \<or> x = CHR ''B''
             then list_all (\<lambda>c. c \<in> set ''01'') ds
           else False)
      | _ \<Rightarrow> False)"

definition isStringNumericLiteral :: "string \<Rightarrow> bool" where
  "isStringNumericLiteral s =
     (trim s = [] \<or> isStrDecimalLiteral (trim s) \<or> isNonDecimalIntegerLiteral (trim s))"




text \<open>
  The \<^verbatim>\<open>try\<close> block as a value: \<open>Inl\<close> would be an exception thrown inside it. None of
  its three calls throws, so it is always \<open>Inr\<close>. \<open>formatTimestamp\<close> adds the \<^verbatim>\<open>catch\<close>
  block, which formats the current time \<open>now\<close>. \<open>ts\<close> is the parameter \<^verbatim>\<open>timestamp\<close>.
\<close>

datatype exception = RangeError | TypeError



section \<open>The landing page\<close>

text \<open>
  The effect of \<^verbatim>\<open>Home\<close>, as the list of paths it passes to \<^verbatim>\<open>router.push\<close>. Its inputs
  are the \<^verbatim>\<open>connected\<close> flag of the wallet and \<^verbatim>\<open>window.location.pathname\<close>. The
  repository holds two versions of the component: \<open>Home_effect\<close> is the one that tests the
  path (source file of unknown name, part 000), \<open>Home_effect_app_page\<close> is the one of
  \<^verbatim>\<open>src/app/page.tsx\<close>, which does not read the location. That file is the page of the
  route \<open>/\<close>: the framework mounts it while the location is \<open>/\<close> and at no other route.
\<close>

definition Home_effect :: "bool \<Rightarrow> string \<Rightarrow> string list" where
  "Home_effect conn path = (if conn \<and> path = ''/'' then [''/dashboard''] else [])"





section \<open>Evaluation on concrete runs\<close>

lemma toString_nonempty: "toString n \<noteq> []"
  by (subst toString.simps) simp

lemmas widget_eval =
  run_def initialWidget_def initialWindow_def sendMessage_begin_def sendMessage_settle_def
  trim_def isWhiteSpace_def typing_tick_def typing_update_def reveal_due_def userMessage_def
  loadingMessage_def aiMessage_def errorMessage_def fetch_request_def toString_nonempty

section \<open>What holds in every reachable state\<close>

lemma placeholder_free_userMessage: "placeholder_free (userMessage i n)"
  by (simp add: placeholder_free_def userMessage_def toString_nonempty)

lemma placeholder_free_aiMessage: "placeholder_free (aiMessage p r n)"
  by (simp add: placeholder_free_def aiMessage_def toString_nonempty)

lemma placeholder_free_errorMessage: "placeholder_free (errorMessage n)"
  by (simp add: placeholder_free_def errorMessage_def toString_nonempty)

lemma revealed_prefix_new:
  "revealed_prefix (userMessage i n)" "revealed_prefix loadingMessage"
  "revealed_prefix (aiMessage p r n)" "revealed_prefix (errorMessage n)"
  by (simp_all add: revealed_prefix_def userMessage_def loadingMessage_def aiMessage_def
      errorMessage_def)

lemma not_reveal_due_loading: "ms \<noteq> [] \<Longrightarrow> last ms = loadingMessage \<Longrightarrow> \<not> reveal_due ms"
  by (cases ms) (simp_all add: reveal_due_def loadingMessage_def)

lemma map_replace_free:
  "list_all placeholder_free ms \<Longrightarrow>
   map (\<lambda>msg. if timestamp msg = timestamp loadingMessage then a else msg) ms = ms"
  by (induction ms) (auto simp add: placeholder_free_def loadingMessage_def)

lemma filter_keep_free:
  "list_all placeholder_free ms \<Longrightarrow>
   filter (\<lambda>msg. timestamp msg \<noteq> timestamp loadingMessage) ms = ms"
  by (induction ms) (auto simp add: placeholder_free_def loadingMessage_def)

lemma typing_tick_messages:
  assumes "reveal_due ms" and "messages w = ms"
  shows "messages (typing_tick w) =
           butlast ms @ [(last ms)\<lparr>displayText := take (Suc (length (displayText (last ms)))) (text (last ms))\<rparr>]"
proof -
  from assms(1) have ne: "ms \<noteq> []" by (auto simp add: reveal_due_def)
  then have "ms[length ms - 1 := x] = butlast ms @ [x]" for x
    by (induction ms rule: rev_induct) (simp_all add: list_update_append)
  with assms ne show ?thesis
    by (cases ms) (simp_all add: typing_tick_def typing_update_def)
qed

lemma typing_tick_idle: "\<not> reveal_due (messages w) \<Longrightarrow> typing_tick w = w"
  by (simp add: typing_tick_def)

lemma typing_tick_fields:
  "input (typing_tick w) = input w" "isProcessing (typing_tick w) = isProcessing w"
  by (simp_all add: typing_tick_def split: option.splits)

lemma widget_inv_initial: "widget_inv initialWidget"
  by (simp add: widget_inv_def initialWidget_def initialWindow_def)

lemma widget_inv_Edit: "widget_inv s \<Longrightarrow> widget_inv (step p s (Edit v))"
  by (simp add: widget_inv_def)

lemma widget_inv_Send: "widget_inv s \<Longrightarrow> widget_inv (step p s (Send now))"
  by (auto simp add: widget_inv_def sendMessage_begin_def revealed_prefix_new
      placeholder_free_userMessage butlast_append)

lemma widget_inv_Tick:
  assumes "widget_inv s"
  shows "widget_inv (step p s Tick)"
proof (cases "reveal_due (messages (window s))")
  case False
  with assms show ?thesis by (simp add: typing_tick_idle)
next
  case True
  let ?ms = "messages (window s)"
  let ?m = "(last ?ms)\<lparr>displayText := take (Suc (length (displayText (last ?ms)))) (text (last ?ms))\<rparr>"
  from True have ne: "?ms \<noteq> []" by (auto simp add: reveal_due_def)
  have msgs: "messages (typing_tick (window s)) = butlast ?ms @ [?m]"
    using typing_tick_messages [OF True refl] .
  from True ne assms have idle: "\<not> isProcessing (window s)"
    using not_reveal_due_loading by (auto simp add: widget_inv_def)
  from ne have split: "?ms = butlast ?ms @ [last ?ms]" by simp
  from assms idle have all: "list_all placeholder_free ?ms" "list_all revealed_prefix ?ms"
    by (simp_all add: widget_inv_def)
  from all split have b: "list_all placeholder_free (butlast ?ms)" "placeholder_free (last ?ms)"
    "list_all revealed_prefix (butlast ?ms)"
    using ne by (auto simp add: list_all_iff dest: in_set_butlastD)
  have "placeholder_free ?m" using b(2) by (simp add: placeholder_free_def)
  moreover have "revealed_prefix ?m" by (simp add: revealed_prefix_def take_is_prefix)
  ultimately show ?thesis
    using assms idle b msgs by (simp add: widget_inv_def typing_tick_fields)
qed

lemma widget_inv_Settle:
  assumes "widget_inv s"
  shows "widget_inv (step p s (Settle outcome now))"
proof (cases "inflight s")
  case Nil
  with assms show ?thesis by simp
next
  case (Cons r rs)
  let ?ms = "messages (window s)"
  from Cons assms have busy: "isProcessing (window s)" and rs: "rs = []"
    by (auto simp add: widget_inv_def split: if_splits)
  with assms have ne: "?ms \<noteq> []" and l: "last ?ms = loadingMessage"
    and b: "list_all placeholder_free (butlast ?ms)" and pre: "list_all revealed_prefix ?ms"
    by (simp_all add: widget_inv_def)
  from ne l have split: "?ms = butlast ?ms @ [loadingMessage]"
    by (metis append_butlast_last_id)
  from pre split have preb: "list_all revealed_prefix (butlast ?ms)"
    by (metis list_all_append)
  show ?thesis
  proof (cases "try_block outcome")
    case None
    have "filter (\<lambda>msg. timestamp msg \<noteq> timestamp loadingMessage) ?ms = butlast ?ms"
      by (subst split) (simp add: filter_keep_free [OF b])
    with None Cons rs b preb show ?thesis
      by (simp add: widget_inv_def sendMessage_settle_def placeholder_free_errorMessage
          revealed_prefix_new)
  next
    case (Some response)
    have "map (\<lambda>msg. if timestamp msg = timestamp loadingMessage then aiMessage p response now else msg) ?ms
            = butlast ?ms @ [aiMessage p response now]"
      by (subst split) (simp add: map_replace_free [OF b])
    with Some Cons rs b preb show ?thesis
      by (simp add: widget_inv_def sendMessage_settle_def placeholder_free_aiMessage
          revealed_prefix_new)
  qed
qed

lemma widget_inv_step: "widget_inv s \<Longrightarrow> widget_inv (step p s e)"
  by (cases e) (simp_all only: widget_inv_Edit widget_inv_Send widget_inv_Settle widget_inv_Tick)

lemma widget_inv_run: "widget_inv (run p es)"
  unfolding run_def
  by (induction es rule: rev_induct) (simp_all add: widget_inv_initial widget_inv_step)

section \<open>The message list across a send\<close>

lemma no_loading_free:
  "list_all placeholder_free ms \<Longrightarrow> filter (\<lambda>m. truthy (isLoading m)) ms = []"
  by (induction ms) (simp_all add: placeholder_free_def)

lemma busy_messages:
  assumes "widget_inv s" and "isProcessing (window s)"
  shows "messages (window s) = butlast (messages (window s)) @ [loadingMessage]"
    and "list_all placeholder_free (butlast (messages (window s)))"
    and "length (inflight s) = 1"
  using assms by (simp_all add: widget_inv_def) (metis append_butlast_last_id)

lemma idle_messages:
  assumes "widget_inv s" and "\<not> isProcessing (window s)"
  shows "list_all placeholder_free (messages (window s))" and "inflight s = []"
  using assms by (simp_all add: widget_inv_def)

lemma loading_count:
  assumes "widget_inv s"
  shows "length (filter (\<lambda>m. truthy (isLoading m)) (messages (window s)))
           = (if isProcessing (window s) then 1 else 0)"
proof (cases "isProcessing (window s)")
  case True
  have "length (filter (\<lambda>m. truthy (isLoading m)) (butlast (messages (window s)) @ [loadingMessage])) = 1"
    by (simp add: no_loading_free [OF busy_messages(2) [OF assms True]] loadingMessage_def)
  with busy_messages(1) [OF assms True] True show ?thesis by simp
next
  case False
  with no_loading_free [OF idle_messages(1) [OF assms False]] show ?thesis by simp
qed

lemma inflight_count:
  assumes "widget_inv s"
  shows "length (inflight s) = (if isProcessing (window s) then 1 else 0)"
  using assms by (simp add: widget_inv_def)

text \<open>
  C2. In every state that a sequence of events reaches from the initial one, the number of
  messages flagged as loading is one while \<open>isProcessing\<close> holds and zero otherwise; it
  equals the number of requests that have not settled, and it is at most one.
\<close>

theorem at_most_one_loading:
  "length (filter (\<lambda>m. truthy (isLoading m)) (messages (window (run p es))))
     = (if isProcessing (window (run p es)) then 1 else 0)
   \<and> length (filter (\<lambda>m. truthy (isLoading m)) (messages (window (run p es))))
     = length (inflight (run p es))
   \<and> length (filter (\<lambda>m. truthy (isLoading m)) (messages (window (run p es)))) \<le> 1"
  using loading_count [OF widget_inv_run, of p es] inflight_count [OF widget_inv_run, of p es]
  by simp

lemma busy_step_id:
  assumes "widget_inv s" and "isProcessing (window s)" and "\<not> settles e"
  shows "step p s e = s"
proof (cases e)
  case (Edit v)
  with assms show ?thesis by simp
next
  case (Send now)
  with assms show ?thesis by (simp add: sendMessage_begin_def)
next
  case (Settle outcome now)
  with assms show ?thesis by simp
next
  case Tick
  from assms have "messages (window s) \<noteq> []" "last (messages (window s)) = loadingMessage"
    by (simp_all add: widget_inv_def)
  then have "\<not> reveal_due (messages (window s))" by (rule not_reveal_due_loading)
  with Tick show ?thesis by (simp add: typing_tick_idle)
qed

lemma busy_foldl_id:
  assumes "widget_inv s" and "isProcessing (window s)" and "list_all (\<lambda>e. \<not> settles e) mid"
  shows "foldl (step p) s mid = s"
  using assms(3) by (induction mid) (simp_all add: busy_step_id [OF assms(1,2)])

lemma settle_busy:
  assumes "widget_inv s" and "isProcessing (window s)"
  shows "messages (window (step p s (Settle outcome now)))
           = butlast (messages (window s)) @
             [case try_block outcome of Some r \<Rightarrow> aiMessage p r now | None \<Rightarrow> errorMessage now]"
proof -
  let ?ms = "messages (window s)"
  note split = busy_messages(1) [OF assms]
  note b = busy_messages(2) [OF assms]
  from busy_messages(3) [OF assms] obtain r where inf: "inflight s = [r]"
    by (cases "inflight s") simp_all
  show ?thesis
  proof (cases "try_block outcome")
    case None
    have "filter (\<lambda>msg. timestamp msg \<noteq> timestamp loadingMessage) ?ms = butlast ?ms"
      by (subst split) (simp add: filter_keep_free [OF b])
    with None inf show ?thesis by (simp add: sendMessage_settle_def)
  next
    case (Some response)
    have "map (\<lambda>msg. if timestamp msg = timestamp loadingMessage then aiMessage p response now else msg) ?ms
            = butlast ?ms @ [aiMessage p response now]"
      by (subst split) (simp add: map_replace_free [OF b])
    with Some inf show ?thesis by (simp add: sendMessage_settle_def)
  qed
qed

lemma send_accepted:
  assumes "\<not> isProcessing (window s)" and "trim (input (window s)) \<noteq> []"
  shows "messages (window (step p s (Send now)))
           = messages (window s) @ [userMessage (input (window s)) now, loadingMessage]"
    and "isProcessing (window (step p s (Send now)))"
  using assms by (simp_all add: sendMessage_begin_def)

text \<open>
  C10. A send that passes the guard in a reachable state, followed by any events other
  than the settling of its request and then by that settling, leaves the old messages in
  place and adds exactly two: the user message and then the reply (success) or the error
  message (failure). The replacement on success is a map: in any state it keeps the
  length of the list and every message whose timestamp is not the empty string.
\<close>

theorem completed_send_adds_two:
  assumes "\<not> isProcessing (window (run p es))"
      and "trim (input (window (run p es))) \<noteq> []"
      and "list_all (\<lambda>e. \<not> settles e) mid"
  shows "messages (window (step p (foldl (step p) (step p (run p es) (Send t1)) mid)
                                  (Settle outcome t2)))
           = messages (window (run p es)) @
             [userMessage (input (window (run p es))) t1,
              case try_block outcome of Some r \<Rightarrow> aiMessage p r t2 | None \<Rightarrow> errorMessage t2]
       \<and> length (messages (window (step p (foldl (step p) (step p (run p es) (Send t1)) mid)
                                  (Settle outcome t2))))
           = length (messages (window (run p es))) + 2
       \<and> (try_block outcome = Some r \<longrightarrow>
            length (messages (sendMessage_settle p outcome t2 w)) = length (messages w) \<and>
            (\<forall>i<length (messages w). timestamp (messages w ! i) \<noteq> [] \<longrightarrow>
               messages (sendMessage_settle p outcome t2 w) ! i = messages w ! i))"
proof -
  let ?s = "run p es"
  let ?s1 = "step p ?s (Send t1)"
  have inv1: "widget_inv ?s1" by (rule widget_inv_step [OF widget_inv_run])
  note sent = send_accepted [OF assms(1,2), of p t1]
  have mid: "foldl (step p) ?s1 mid = ?s1"
    by (rule busy_foldl_id [OF inv1 sent(2) assms(3)])
  have "messages (window (step p ?s1 (Settle outcome t2)))
          = butlast (messages (window ?s1)) @
            [case try_block outcome of Some r \<Rightarrow> aiMessage p r t2 | None \<Rightarrow> errorMessage t2]"
    by (rule settle_busy [OF inv1 sent(2)])
  with sent(1) mid have main: "messages (window (step p (foldl (step p) ?s1 mid) (Settle outcome t2)))
           = messages (window ?s) @
             [userMessage (input (window ?s)) t1,
              case try_block outcome of Some r \<Rightarrow> aiMessage p r t2 | None \<Rightarrow> errorMessage t2]"
    by (simp add: butlast_append)
  have frame: "try_block outcome = Some r \<longrightarrow>
            length (messages (sendMessage_settle p outcome t2 w)) = length (messages w) \<and>
            (\<forall>i<length (messages w). timestamp (messages w ! i) \<noteq> [] \<longrightarrow>
               messages (sendMessage_settle p outcome t2 w) ! i = messages w ! i)"
    by (simp add: sendMessage_settle_def loadingMessage_def)
  from main frame show ?thesis by simp
qed

theorem completed_send_adds_two_witness:
  "\<not> isProcessing (window (run ''aria'' [Edit ''hello'']))
   \<and> trim (input (window (run ''aria'' [Edit ''hello'']))) \<noteq> []
   \<and> list_all (\<lambda>e. \<not> settles e) [Tick, Send 17, Edit ''x'']
   \<and> messages (window (step ''aria''
         (foldl (step ''aria'') (step ''aria'' (run ''aria'' [Edit ''hello'']) (Send 10))
            [Tick, Send 17, Edit ''x''])
         (Settle (Responded 500 None) 29)))
       = [userMessage ''hello'' 10, errorMessage 29]"
proof -
  have a: "\<not> isProcessing (window (run ''aria'' [Edit ''hello'']))"
    by (simp add: widget_eval)
  have b: "trim (input (window (run ''aria'' [Edit ''hello'']))) \<noteq> []"
    by (simp add: widget_eval)
  have c: "list_all (\<lambda>e. \<not> settles e) [Tick, Send 17, Edit ''x'']" by simp
  have d: "messages (window (run ''aria'' [Edit ''hello''])) = []"
    "input (window (run ''aria'' [Edit ''hello''])) = ''hello''"
    by (simp_all add: widget_eval)
  from completed_send_adds_two [OF a b c, where ?t1.0 = 10 and ?t2.0 = 29
      and outcome = "Responded 500 None"] a b c
  show ?thesis by (simp add: d)
qed

section \<open>Failure of the request\<close>

lemma inflight_busy: "widget_inv s \<Longrightarrow> inflight s \<noteq> [] \<Longrightarrow> isProcessing (window s)"
  by (auto simp add: widget_inv_def split: if_splits)

lemma settle_idle [simp]: "\<not> isProcessing (sendMessage_settle p outcome now w)"
  by (simp add: sendMessage_settle_def split: option.splits)

lemma try_block_fails:
  assumes "outcome = Rejected \<or>
           outcome = Responded status body \<and> (status < 200 \<or> 299 < status \<or> body = None)"
  shows "try_block outcome = None"
  using assms by auto

lemma try_block_None_iff:
  "try_block outcome = None \<longleftrightarrow>
     outcome = Rejected \<or>
     (\<exists>status body. outcome = Responded status body \<and>
        (status < 200 \<or> 299 < status \<or> body = None))"
  by (cases outcome) auto

text \<open>
  C3. When the request fails, that is, the promise is rejected, or the response has a
  status outside 200 to 299 (whatever its body), or its body does not parse, while the
  request is outstanding in a reachable state, then the loading placeholder, which is the
  last message, is removed and one error message with the fixed text is appended, fully
  displayed, so that no typing timer is armed; no loading message is left. After
  settling, \<open>isProcessing\<close> is false whatever the outcome and the state.
\<close>

theorem failure_replaces_placeholder:
  assumes "outcome = Rejected \<or>
           outcome = Responded status body \<and> (status < 200 \<or> 299 < status \<or> body = None)"
      and "inflight (run p es) \<noteq> []"
  shows "messages (window (step p (run p es) (Settle outcome now)))
           = butlast (messages (window (run p es))) @ [errorMessage now]
       \<and> last (messages (window (run p es))) = loadingMessage
       \<and> filter (\<lambda>m. truthy (isLoading m))
            (messages (window (step p (run p es) (Settle outcome now)))) = []
       \<and> text (errorMessage now) = ''Failed to generate response. Please try again.''
       \<and> displayText (errorMessage now) = text (errorMessage now)
       \<and> \<not> reveal_due (messages (window (step p (run p es) (Settle outcome now))))
       \<and> \<not> isProcessing (window (step p (run p es) (Settle outcome now)))
       \<and> \<not> isProcessing (sendMessage_settle p outcome' now' w)"
proof -
  let ?s = "run p es"
  have failed: "try_block outcome = None" by (rule try_block_fails [OF assms(1)])
  have inv: "widget_inv ?s" by (rule widget_inv_run)
  have busy: "isProcessing (window ?s)" by (rule inflight_busy [OF inv assms(2)])
  from settle_busy [OF inv busy, of p outcome now] failed
  have msgs: "messages (window (step p ?s (Settle outcome now)))
           = butlast (messages (window ?s)) @ [errorMessage now]" by simp
  from inv busy have l: "last (messages (window ?s)) = loadingMessage"
    by (simp add: widget_inv_def)
  have inv': "widget_inv (step p ?s (Settle outcome now))" by (rule widget_inv_step [OF inv])
  from assms(2) have idle: "\<not> isProcessing (window (step p ?s (Settle outcome now)))"
    by (cases "inflight ?s") simp_all
  from loading_count [OF inv'] idle
  have none: "filter (\<lambda>m. truthy (isLoading m))
            (messages (window (step p ?s (Settle outcome now)))) = []" by simp
  have still: "\<not> reveal_due (butlast (messages (window ?s)) @ [errorMessage now])"
    by (cases "butlast (messages (window ?s))") (simp_all add: reveal_due_def errorMessage_def)
  from msgs l none still idle show ?thesis by (simp add: errorMessage_def)
qed

theorem failure_replaces_placeholder_witness:
  "(299::nat) < 500
   \<and> inflight (run ''aria'' [Edit ''hello'', Send 10]) \<noteq> []
   \<and> messages (window (step ''aria'' (run ''aria'' [Edit ''hello'', Send 10])
                         (Settle (Responded 500 (Some ''Internal Server Error'')) 20)))
       = [userMessage ''hello'' 10, errorMessage 20]
   \<and> \<not> isProcessing (window (step ''aria'' (run ''aria'' [Edit ''hello'', Send 10])
                         (Settle (Responded 500 (Some ''Internal Server Error'')) 20)))
   \<and> messages (window (step ''aria'' (run ''aria'' [Edit ''hello'', Send 10])
                         (Settle Rejected 20)))
       = [userMessage ''hello'' 10, errorMessage 20]
   \<and> messages (window (step ''aria'' (run ''aria'' [Edit ''hello'', Send 10])
                         (Settle (Responded 200 None) 20)))
       = [userMessage ''hello'' 10, errorMessage 20]"
proof -
  have a: "Responded 500 (Some ''Internal Server Error'') = Rejected \<or>
           Responded 500 (Some ''Internal Server Error'')
             = Responded 500 (Some ''Internal Server Error'') \<and>
           ((500::nat) < 200 \<or> 299 < (500::nat) \<or> Some ''Internal Server Error'' = None)"
    by simp
  have r: "Rejected = Rejected \<or>
           Rejected = Responded 0 None \<and> ((0::nat) < 200 \<or> 299 < (0::nat) \<or> None = None)"
    by simp
  have u: "Responded 200 None = Rejected \<or>
           Responded 200 None = Responded 200 None \<and>
           ((200::nat) < 200 \<or> 299 < (200::nat) \<or> (None :: string option) = None)"
    by simp
  have b: "inflight (run ''aria'' [Edit ''hello'', Send 10]) \<noteq> []"
    by (simp add: widget_eval)
  have c: "messages (window (run ''aria'' [Edit ''hello'', Send 10]))
             = [userMessage ''hello'' 10, loadingMessage]"
    by (simp add: widget_eval)
  from failure_replaces_placeholder [OF a b, of 20]
       failure_replaces_placeholder [OF r b, of 20]
       failure_replaces_placeholder [OF u b, of 20] b c
  show ?thesis by simp
qed

section \<open>The reveal of a reply\<close>

lemma reveal_due_iff:
  "ms \<noteq> [] \<Longrightarrow> reveal_due ms =
     (textual_reply (last ms) \<and> length (displayText (last ms)) < length (text (last ms)))"
  by (cases ms) (simp_all add: reveal_due_def textual_reply_def)

lemma prefix_full: "prefix d t \<Longrightarrow> length t \<le> length d \<Longrightarrow> d = t"
  by (metis prefix_length_le prefix_order.eq_iff prefix_length_prefix antisym order_refl)

lemma full_display:
  assumes "prefix (displayText m) (text m)" and "length (text m) \<le> length (displayText m)"
  shows "m\<lparr>displayText := text m\<rparr> = m"
proof -
  from assms have "displayText m = text m" by (rule prefix_full)
  then show ?thesis by (metis ChatMessage.surjective ChatMessage.update_convs(4))
qed

lemma reveal_quiet:
  assumes "messages (window s) \<noteq> []"
      and "textual_reply (last (messages (window s)))"
      and "prefix (displayText (last (messages (window s)))) (text (last (messages (window s))))"
      and "list_all quiet evs"
      and "length (text (last (messages (window s)))) - length (displayText (last (messages (window s))))
             \<le> length (filter (\<lambda>e. e = Tick) evs)"
  shows "messages (window (foldl (step p) s evs))
           = butlast (messages (window s)) @
             [(last (messages (window s)))\<lparr>displayText := text (last (messages (window s)))\<rparr>]"
  using assms
proof (induction evs arbitrary: s)
  case Nil
  then have "(last (messages (window s)))\<lparr>displayText := text (last (messages (window s)))\<rparr>
               = last (messages (window s))"
    by (intro full_display) simp_all
  with Nil.prems(1) show ?case by simp
next
  case (Cons e evs)
  let ?ms = "messages (window s)"
  show ?case
  proof (cases e)
    case (Edit v)
    then have same: "messages (window (step p s e)) = ?ms" by simp
    from Cons.prems Edit have
      "messages (window (foldl (step p) (step p s e) evs))
         = butlast (messages (window (step p s e))) @
           [(last (messages (window (step p s e))))
              \<lparr>displayText := text (last (messages (window (step p s e))))\<rparr>]"
      by (intro Cons.IH) (simp_all only: same, simp_all)
    then show ?thesis by (simp only: same foldl_Cons)
  next
    case (Send now)
    with Cons.prems(4) show ?thesis by simp
  next
    case (Settle outcome now)
    with Cons.prems(4) show ?thesis by simp
  next
    case Tick
    show ?thesis
    proof (cases "reveal_due ?ms")
      case False
      with Tick have same: "step p s e = s" by (simp add: typing_tick_idle)
      from False Cons.prems(1,2)
      have zero: "length (text (last ?ms)) - length (displayText (last ?ms)) = 0"
        by (simp add: reveal_due_iff)
      from Cons.prems(1-4) zero have
        "messages (window (foldl (step p) s evs))
           = butlast ?ms @ [(last ?ms)\<lparr>displayText := text (last ?ms)\<rparr>]"
        by (intro Cons.IH) simp_all
      with same show ?thesis by simp
    next
      case True
      let ?m = "(last ?ms)\<lparr>displayText :=
                  take (Suc (length (displayText (last ?ms)))) (text (last ?ms))\<rparr>"
      from Tick have msgs: "messages (window (step p s e)) = butlast ?ms @ [?m]"
        by (simp add: typing_tick_messages [OF True refl])
      have l: "last (messages (window (step p s e))) = ?m" by (simp add: msgs)
      from True Cons.prems(1) have short:
        "length (displayText (last ?ms)) < length (text (last ?ms))"
        by (simp add: reveal_due_iff)
      have "messages (window (foldl (step p) (step p s e) evs))
              = butlast (messages (window (step p s e))) @
                [(last (messages (window (step p s e))))
                   \<lparr>displayText := text (last (messages (window (step p s e))))\<rparr>]"
      proof (intro Cons.IH)
        show "messages (window (step p s e)) \<noteq> []" by (simp add: msgs)
        show "textual_reply (last (messages (window (step p s e))))"
          using Cons.prems(2) by (simp add: l textual_reply_def)
        show "prefix (displayText (last (messages (window (step p s e)))))
                (text (last (messages (window (step p s e)))))"
          by (simp add: l take_is_prefix)
        show "list_all quiet evs" using Cons.prems(4) by simp
        show "length (text (last (messages (window (step p s e)))))
                - length (displayText (last (messages (window (step p s e)))))
              \<le> length (filter (\<lambda>e. e = Tick) evs)"
          using Cons.prems(5) short l unfolding Tick by simp
      qed
      then show ?thesis by (simp add: msgs)
    qed
  qed
qed

lemma typing_tick_nth:
  assumes "reveal_due (messages w)" and "i < length (messages w)"
  shows "messages (typing_tick w) ! i =
           (if i = length (messages w) - 1
            then (messages w ! i)\<lparr>displayText :=
                   take (Suc (length (displayText (messages w ! i)))) (text (messages w ! i))\<rparr>
            else messages w ! i)"
proof -
  from assms(2) have ne: "messages w \<noteq> []" by auto
  show ?thesis
    unfolding typing_tick_messages [OF assms(1) refl]
    using assms(2) ne
    by (auto simp add: nth_append nth_butlast last_conv_nth)
qed

lemma typing_tick_monotone:
  "length (messages (typing_tick w)) = length (messages w)"
  "i < length (messages w) \<Longrightarrow> text (messages (typing_tick w) ! i) = text (messages w ! i)"
  "i < length (messages w) \<Longrightarrow>
     length (displayText (messages w ! i)) \<le> length (displayText (messages (typing_tick w) ! i))"
proof -
  show "length (messages (typing_tick w)) = length (messages w)"
  proof (cases "reveal_due (messages w)")
    case False
    then show ?thesis by (simp add: typing_tick_idle)
  next
    case True
    then have "messages w \<noteq> []" by (auto simp add: reveal_due_def)
    then show ?thesis by (simp add: typing_tick_messages [OF True refl])
  qed
next
  assume i: "i < length (messages w)"
  show "text (messages (typing_tick w) ! i) = text (messages w ! i)"
  proof (cases "reveal_due (messages w)")
    case False
    then show ?thesis by (simp add: typing_tick_idle)
  next
    case True
    show ?thesis by (simp add: typing_tick_nth [OF True i])
  qed
next
  assume i: "i < length (messages w)"
  then have ne: "messages w \<noteq> []" by auto
  show "length (displayText (messages w ! i)) \<le> length (displayText (messages (typing_tick w) ! i))"
  proof (cases "reveal_due (messages w)")
    case False
    then show ?thesis by (simp add: typing_tick_idle)
  next
    case True
    with ne have "length (displayText (last (messages w))) < length (text (last (messages w)))"
      by (simp add: reveal_due_iff)
    with ne show ?thesis
      by (simp add: typing_tick_nth [OF True i] last_conv_nth)
  qed
qed

lemma run_prefix: "m \<in> set (messages (window (run p es))) \<Longrightarrow> prefix (displayText m) (text m)"
  using widget_inv_run [of p es]
  by (simp add: widget_inv_def list_all_iff revealed_prefix_def)

text \<open>
  C1 (amended). In every reachable state the display text of every message is a prefix of
  its text. A firing of the typing timer keeps the length of the list and the text of every
  message and shortens no display text. When the last message of a reachable state is a
  textual assistant message (not loading, not an image) and only edits of the input and
  firings of the timer follow, so that it stays the last message, then as many firings as
  its text exceeds its display text complete it and leave the other messages as they were.
\<close>

theorem reveal_while_last:
  "(\<forall>m\<in>set (messages (window (run p es))). prefix (displayText m) (text m))
   \<and> length (messages (typing_tick w)) = length (messages w)
   \<and> (\<forall>i<length (messages w).
         text (messages (typing_tick w) ! i) = text (messages w ! i) \<and>
         length (displayText (messages w ! i))
           \<le> length (displayText (messages (typing_tick w) ! i)))
   \<and> (messages (window (run p es)) \<noteq> [] \<and>
       sender (last (messages (window (run p es)))) = Ai \<and>
       \<not> truthy (isLoading (last (messages (window (run p es))))) \<and>
       \<not> truthy (isImage (last (messages (window (run p es))))) \<and>
       list_all quiet evs \<and>
       length (text (last (messages (window (run p es)))))
         - length (displayText (last (messages (window (run p es)))))
         \<le> length (filter (\<lambda>e. e = Tick) evs) \<longrightarrow>
       messages (window (foldl (step p) (run p es) evs))
         = butlast (messages (window (run p es))) @
           [(last (messages (window (run p es))))
              \<lparr>displayText := text (last (messages (window (run p es))))\<rparr>])"
proof -
  let ?s = "run p es"
  let ?ms = "messages (window ?s)"
  have a: "\<forall>m\<in>set ?ms. prefix (displayText m) (text m)"
    using run_prefix by blast
  have c: "?ms \<noteq> [] \<and> sender (last ?ms) = Ai \<and>
       \<not> truthy (isLoading (last ?ms)) \<and> \<not> truthy (isImage (last ?ms)) \<and>
       list_all quiet evs \<and>
       length (text (last ?ms)) - length (displayText (last ?ms))
         \<le> length (filter (\<lambda>e. e = Tick) evs) \<longrightarrow>
       messages (window (foldl (step p) ?s evs))
         = butlast ?ms @ [(last ?ms)\<lparr>displayText := text (last ?ms)\<rparr>]"
  proof
    assume h: "?ms \<noteq> [] \<and> sender (last ?ms) = Ai \<and>
       \<not> truthy (isLoading (last ?ms)) \<and> \<not> truthy (isImage (last ?ms)) \<and>
       list_all quiet evs \<and>
       length (text (last ?ms)) - length (displayText (last ?ms))
         \<le> length (filter (\<lambda>e. e = Tick) evs)"
    then have ne: "?ms \<noteq> []" and t: "textual_reply (last ?ms)" and q: "list_all quiet evs"
      and k: "length (text (last ?ms)) - length (displayText (last ?ms))
                \<le> length (filter (\<lambda>e. e = Tick) evs)"
      by (simp_all add: textual_reply_def)
    from ne have "last ?ms \<in> set ?ms" by simp
    then have pre: "prefix (displayText (last ?ms)) (text (last ?ms))"
      by (rule run_prefix)
    show "messages (window (foldl (step p) ?s evs))
            = butlast ?ms @ [(last ?ms)\<lparr>displayText := text (last ?ms)\<rparr>]"
      by (rule reveal_quiet [OF ne t pre q k])
  qed
  from a c typing_tick_monotone [where w = w] show ?thesis by simp
qed

theorem reveal_while_last_witness:
  "messages (window (run ''aria'' [Edit ''hello'', Send 10, Settle (Responded 200 (Some ''hi there'')) 20]))
     = [userMessage ''hello'' 10, aiMessage ''aria'' ''hi there'' 20]
   \<and> sender (aiMessage ''aria'' ''hi there'' 20) = Ai
   \<and> \<not> truthy (isLoading (aiMessage ''aria'' ''hi there'' 20))
   \<and> \<not> truthy (isImage (aiMessage ''aria'' ''hi there'' 20))
   \<and> displayText (aiMessage ''aria'' ''hi there'' 20) = []
   \<and> list_all quiet [Tick, Tick, Edit ''ok'', Tick, Tick, Tick, Tick, Tick, Tick]
   \<and> length (filter (\<lambda>e. e = Tick) [Tick, Tick, Edit ''ok'', Tick, Tick, Tick, Tick, Tick, Tick]) = 8
   \<and> messages (window (foldl (step ''aria'')
        (run ''aria'' [Edit ''hello'', Send 10, Settle (Responded 200 (Some ''hi there'')) 20])
        [Tick, Tick, Edit ''ok'', Tick, Tick, Tick, Tick, Tick, Tick]))
     = [userMessage ''hello'' 10, (aiMessage ''aria'' ''hi there'' 20)\<lparr>displayText := ''hi there''\<rparr>]"
proof -
  let ?s = "run ''aria'' [Edit ''hello'', Send 10, Settle (Responded 200 (Some ''hi there'')) 20]"
  let ?evs = "[Tick, Tick, Edit ''ok'', Tick, Tick, Tick, Tick, Tick, Tick]"
  have r: "messages (window ?s) = [userMessage ''hello'' 10, aiMessage ''aria'' ''hi there'' 20]"
    by (simp add: widget_eval)
  have a: "sender (aiMessage ''aria'' ''hi there'' 20) = Ai"
    "\<not> truthy (isLoading (aiMessage ''aria'' ''hi there'' 20))"
    "\<not> truthy (isImage (aiMessage ''aria'' ''hi there'' 20))"
    "displayText (aiMessage ''aria'' ''hi there'' 20) = []"
    "text (aiMessage ''aria'' ''hi there'' 20) = ''hi there''"
    by (simp_all add: aiMessage_def)
  have bl: "butlast (messages (window ?s)) = [userMessage ''hello'' 10]"
    "last (messages (window ?s)) = aiMessage ''aria'' ''hi there'' 20"
    by (simp_all add: r)
  have q: "list_all quiet ?evs" by simp
  have n: "length (filter (\<lambda>e. e = Tick) ?evs) = 8" by simp
  have k: "length (text (last (messages (window ?s)))) - length (displayText (last (messages (window ?s))))
             \<le> length (filter (\<lambda>e. e = Tick) ?evs)"
    unfolding n by (simp add: r a)
  from reveal_while_last [of "''aria''"
      "[Edit ''hello'', Send 10, Settle (Responded 200 (Some ''hi there'')) 20]" initialWindow ?evs]
  have "messages (window ?s) \<noteq> [] \<and> sender (last (messages (window ?s))) = Ai \<and>
        \<not> truthy (isLoading (last (messages (window ?s)))) \<and>
        \<not> truthy (isImage (last (messages (window ?s)))) \<and> list_all quiet ?evs \<and>
        length (text (last (messages (window ?s)))) - length (displayText (last (messages (window ?s))))
          \<le> length (filter (\<lambda>e. e = Tick) ?evs) \<longrightarrow>
        messages (window (foldl (step ''aria'') ?s ?evs))
          = butlast (messages (window ?s)) @
            [(last (messages (window ?s)))\<lparr>displayText := text (last (messages (window ?s)))\<rparr>]"
    by blast
  with q k have "messages (window (foldl (step ''aria'') ?s ?evs))
          = butlast (messages (window ?s)) @
            [(last (messages (window ?s)))\<lparr>displayText := text (last (messages (window ?s)))\<rparr>]"
    by (simp add: r a)
  then have "messages (window (foldl (step ''aria'') ?s ?evs))
          = [userMessage ''hello'' 10, (aiMessage ''aria'' ''hi there'' 20)\<lparr>displayText := ''hi there''\<rparr>]"
    by (simp only: bl a append.simps)
  with r a q n show ?thesis by (simp only: simp_thms)
qed

text \<open>
  C1 as stated fails: the effect looks at the last message only. A reply that a later
  send displaces from the end of the list while it is being revealed keeps its partial
  display text. Below, the reply \<open>''hi''\<close> still displays nothing after the second
  exchange has completed, no request is outstanding, and a firing of the timer changes
  nothing.
\<close>

theorem abandoned_reveal_never_completes:
  "messages (window (run ''aria''
      [Edit ''a'', Send 10, Settle (Responded 200 (Some ''hi'')) 2,
       Edit ''b'', Send 3, Settle (Responded 200 (Some ''yo'')) 4, Tick, Tick]))
     = [userMessage ''a'' 10, aiMessage ''aria'' ''hi'' 2,
        userMessage ''b'' 3, (aiMessage ''aria'' ''yo'' 4)\<lparr>displayText := ''yo''\<rparr>]
   \<and> sender (aiMessage ''aria'' ''hi'' 2) = Ai
   \<and> isLoading (aiMessage ''aria'' ''hi'' 2) = None
   \<and> isImage (aiMessage ''aria'' ''hi'' 2) = Some False
   \<and> text (aiMessage ''aria'' ''hi'' 2) = ''hi''
   \<and> displayText (aiMessage ''aria'' ''hi'' 2) = []
   \<and> inflight (run ''aria''
      [Edit ''a'', Send 10, Settle (Responded 200 (Some ''hi'')) 2,
       Edit ''b'', Send 3, Settle (Responded 200 (Some ''yo'')) 4, Tick, Tick]) = []
   \<and> step ''aria'' (run ''aria''
      [Edit ''a'', Send 10, Settle (Responded 200 (Some ''hi'')) 2,
       Edit ''b'', Send 3, Settle (Responded 200 (Some ''yo'')) 4, Tick, Tick]) Tick
     = run ''aria''
      [Edit ''a'', Send 10, Settle (Responded 200 (Some ''hi'')) 2,
       Edit ''b'', Send 3, Settle (Responded 200 (Some ''yo'')) 4, Tick, Tick]"
  by (simp add: widget_eval)


section \<open>The request and the synchronous part of a send\<close>

text \<open>
  C6 (amended). A send that passes the guard issues exactly one request: a POST to
  \<open>/api/ai/\<close> followed by the persona, with a JSON content type, whose \<open>message\<close> is the
  input as typed, white space included.
\<close>

theorem sendMessage_request:
  assumes "trim (input w) \<noteq> []" and "\<not> isProcessing w"
  shows "snd (sendMessage_begin p now w)
           = Some \<lparr>url = ''/api/ai/'' @ p, http_method = ''POST'',
                   content_type = ''application/json'', body_message = input w\<rparr>
       \<and> inflight (step p \<lparr>window = w, inflight = rs\<rparr> (Send now))
           = rs @ [\<lparr>url = ''/api/ai/'' @ p, http_method = ''POST'',
                   content_type = ''application/json'', body_message = input w\<rparr>]"
  using assms by (simp add: sendMessage_begin_def fetch_request_def)

theorem sendMessage_request_witness:
  "trim (input (initialWindow\<lparr>input := '' hi''\<rparr>)) \<noteq> []
   \<and> \<not> isProcessing (initialWindow\<lparr>input := '' hi''\<rparr>)
   \<and> snd (sendMessage_begin ''aria'' 50 (initialWindow\<lparr>input := '' hi''\<rparr>))
       = Some \<lparr>url = ''/api/ai/aria'', http_method = ''POST'',
               content_type = ''application/json'', body_message = '' hi''\<rparr>"
proof -
  have t: "trim (input (initialWindow\<lparr>input := '' hi''\<rparr>)) \<noteq> []"
    by (simp add: trim_def isWhiteSpace_def initialWindow_def)
  have q: "\<not> isProcessing (initialWindow\<lparr>input := '' hi''\<rparr>)"
    by (simp add: initialWindow_def)
  from sendMessage_request [OF t q, of "''aria''" 50] t q
  show ?thesis by (simp add: initialWindow_def)
qed

text \<open>
  C6 as stated fails: trimming is used in the guard only. For the input \<open>'' hi''\<close> the
  payload keeps the leading blank.
\<close>

theorem request_body_not_trimmed:
  "snd (sendMessage_begin ''aria'' 50 (initialWindow\<lparr>input := '' hi''\<rparr>))
     = Some (fetch_request ''aria'' '' hi'')
   \<and> body_message (fetch_request ''aria'' '' hi'') = '' hi''
   \<and> trim '' hi'' = ''hi''
   \<and> body_message (fetch_request ''aria'' '' hi'') \<noteq> trim '' hi''"
  by (simp add: widget_eval)


text \<open>
  C4. In a state with \<open>isProcessing = False\<close> and an input that is not empty after
  trimming, the synchronous part of \<open>sendMessage\<close> appends exactly two messages, the user
  message (display text equal to its text) and then the loading placeholder, clears the
  input, sets \<open>isProcessing\<close>, and leaves the request outstanding.
\<close>

theorem sendMessage_begin_appends_two:
  assumes "trim (input w) \<noteq> []" and "\<not> isProcessing w"
  shows "messages (fst (sendMessage_begin p now w))
           = messages w @ [userMessage (input w) now, loadingMessage]
       \<and> sender (userMessage (input w) now) = User
       \<and> text (userMessage (input w) now) = input w
       \<and> displayText (userMessage (input w) now) = text (userMessage (input w) now)
       \<and> isLoading loadingMessage = Some True
       \<and> input (fst (sendMessage_begin p now w)) = []
       \<and> isProcessing (fst (sendMessage_begin p now w))
       \<and> inflight (step p \<lparr>window = w, inflight = []\<rparr> (Send now))
           = [fetch_request p (input w)]"
  using assms
  by (simp add: sendMessage_begin_def userMessage_def loadingMessage_def)

theorem sendMessage_begin_appends_two_witness:
  "trim (input (initialWindow\<lparr>input := ''hello''\<rparr>)) \<noteq> []
   \<and> \<not> isProcessing (initialWindow\<lparr>input := ''hello''\<rparr>)
   \<and> messages (fst (sendMessage_begin ''aria'' 50 (initialWindow\<lparr>input := ''hello''\<rparr>)))
       = [userMessage ''hello'' 50, loadingMessage]
   \<and> input (fst (sendMessage_begin ''aria'' 50 (initialWindow\<lparr>input := ''hello''\<rparr>))) = []
   \<and> isProcessing (fst (sendMessage_begin ''aria'' 50 (initialWindow\<lparr>input := ''hello''\<rparr>)))"
proof -
  have t: "trim (input (initialWindow\<lparr>input := ''hello''\<rparr>)) \<noteq> []"
    by (simp add: trim_def isWhiteSpace_def initialWindow_def)
  have q: "\<not> isProcessing (initialWindow\<lparr>input := ''hello''\<rparr>)"
    by (simp add: initialWindow_def)
  from sendMessage_begin_appends_two [OF t q, of "''aria''" 50] t q
  show ?thesis by (simp add: initialWindow_def)
qed

text \<open>
  C5. While \<open>isProcessing\<close> holds, or when the input is empty after trimming, the send
  action changes nothing: the state is the same and no request is issued.
\<close>

theorem sendMessage_begin_rejected:
  assumes "isProcessing w \<or> trim (input w) = []"
  shows "sendMessage_begin p now w = (w, None)
       \<and> step p \<lparr>window = w, inflight = rs\<rparr> (Send now) = \<lparr>window = w, inflight = rs\<rparr>"
  using assms by (auto simp add: sendMessage_begin_def)

theorem sendMessage_begin_rejected_witness:
  "(isProcessing (initialWindow\<lparr>input := '' ''\<rparr>) \<or> trim (input (initialWindow\<lparr>input := '' ''\<rparr>)) = [])
   \<and> sendMessage_begin ''aria'' 50 (initialWindow\<lparr>input := '' ''\<rparr>)
       = (initialWindow\<lparr>input := '' ''\<rparr>, None)"
proof -
  have t: "isProcessing (initialWindow\<lparr>input := '' ''\<rparr>)
           \<or> trim (input (initialWindow\<lparr>input := '' ''\<rparr>)) = []"
    by (simp add: trim_def isWhiteSpace_def initialWindow_def)
  from sendMessage_begin_rejected [OF t, of "''aria''" 50] t
  show ?thesis by simp
qed

section \<open>Properties of the text formatter\<close>

lemmas format_eval =
  formatResponseText_def split_emphasis_def match_here_def match_delimited_def
  render_part_def startsWith_def endsWith_def slice_def isLineTerminator_def

lemma split_loop_concat: "concat (split_loop piece s) = piece @ s"
  by (induction piece s rule: split_loop.induct) (simp_all split: option.splits)

lemma split_emphasis_concat: "concat (split_emphasis s) = s"
  by (simp add: split_emphasis_def split_loop_concat)

lemma match_here_asterisk: "match_here s = Some n \<Longrightarrow> hd s = CHR ''*'' \<and> s \<noteq> []"
  by (cases s) (auto simp add: match_here_def match_delimited_def split: option.splits if_splits)

lemma split_loop_plain:
  "CHR ''*'' \<notin> set s \<Longrightarrow> split_loop piece s = [piece @ s]"
proof (induction s arbitrary: piece)
  case Nil
  then show ?case by simp
next
  case (Cons c cs)
  then have "match_here (c # cs) = None"
    using match_here_asterisk [of "c # cs"] by (cases "match_here (c # cs)") auto
  with Cons show ?case by simp
qed

lemma formatResponseText_plain:
  assumes "CHR ''*'' \<notin> set s"
  shows "formatResponseText s = [Span s]"
proof -
  from assms have "\<not> startsWith ''*'' s"
    by (cases s) (auto simp add: startsWith_def)
  moreover from assms have "\<not> startsWith ''**'' s"
    by (cases s) (auto simp add: startsWith_def)
  ultimately show ?thesis
    using assms
    by (simp add: formatResponseText_def split_emphasis_def split_loop_plain render_part_def)
qed

lemma formatResponseText_examples:
  "formatResponseText ''a **b** c *d*''
     = [Span ''a '', Strong ''b'', Span '' c '', Em ''d'', Span []]"
  "formatResponseText ''2 ** 3'' = [Span ''2 '', Strong [], Span '' 3'']"
  "formatResponseText ''*a**'' = [Span [], Em ''a'', Em []]"
  by (simp_all add: format_eval)

lemma lazy_dots_Some:
  "lazy_dots closer s = Some k \<Longrightarrow>
     take (k + length closer) s = take k s @ closer \<and>
     list_all (\<lambda>c. \<not> isLineTerminator c) (take k s)"
proof (induction s arbitrary: k)
  case Nil
  then show ?case by (simp split: if_splits)
next
  case (Cons c cs)
  show ?case
  proof (cases "prefix closer (c # cs)")
    case True
    with Cons.prems have "k = 0" by simp
    with True show ?thesis by (auto simp add: prefix_def)
  next
    case False
    with Cons.prems obtain j where j: "lazy_dots closer cs = Some j" "k = Suc j"
      and c: "\<not> isLineTerminator c"
      by (auto split: if_splits)
    from Cons.IH [OF j(1)] j(2) c show ?thesis by simp
  qed
qed

lemma match_delimited_Some:
  assumes "match_delimited d s = Some n"
  shows "\<exists>body. take n s = d @ body @ d \<and> list_all (\<lambda>c. \<not> isLineTerminator c) body"
proof -
  from assms obtain k where p: "prefix d s" and k: "lazy_dots d (drop (length d) s) = Some k"
    and n: "n = length d + k + length d"
    by (auto simp add: match_delimited_def split: if_splits)
  from p obtain r where s: "s = d @ r" by (auto simp add: prefix_def)
  from k s have kr: "lazy_dots d r = Some k" by simp
  from lazy_dots_Some [OF kr] have "take (k + length d) r = take k r @ d"
    and ok: "list_all (\<lambda>c. \<not> isLineTerminator c) (take k r)" by simp_all
  with s n have "take n s = d @ take k r @ d" by (simp add: add.commute add.left_commute)
  with ok show ?thesis by blast
qed

lemma match_here_paired:
  assumes "match_here s = Some n"
  shows "\<exists>d body. (d = ''**'' \<or> d = ''*'') \<and> take n s = d @ body @ d \<and>
           list_all (\<lambda>c. \<not> isLineTerminator c) body"
proof (cases "match_delimited ''**'' s")
  case None
  with assms have "match_delimited ''*'' s = Some n" by (simp add: match_here_def)
  from match_delimited_Some [OF this] show ?thesis by blast
next
  case (Some m)
  with assms have "match_delimited ''**'' s = Some n" by (simp add: match_here_def)
  from match_delimited_Some [OF this] show ?thesis by blast
qed

text \<open>
  C7. The claim: the formatter splits only on paired spans, every segment outside them
  passes through unchanged, and an asterisk without a closer is rendered as literal text.
  The splitter does its part (\<open>match_here_paired\<close>, \<open>split_emphasis_concat\<close>), and text
  without an asterisk is passed on (\<open>formatResponseText_plain\<close>). The classification of the
  parts does not: it tests every part, matched or not, for a leading and a trailing
  asterisk, and one asterisk is both. On the input \<open>''*''\<close> the pattern matches nowhere, the
  only part is the input, and it is rendered as an empty \<open>Em\<close> element: the asterisk is
  consumed as markup.
\<close>

theorem lone_asterisk_rendered_as_emphasis:
  "match_here ''*'' = None
   \<and> split_emphasis ''*'' = [''*'']
   \<and> formatResponseText ''*'' = [Em []]"
  by (simp add: format_eval)

section \<open>Properties of the time-of-day formatter\<close>

lemmas number_eval =
  isStringNumericLiteral_def isNonDecimalIntegerLiteral_def isStrDecimalLiteral_def
  isStrUnsignedDecimalLiteral_def isExponentPart_def isSign_def isDecimalDigits_def
  isDecimalDigit_def trim_def isWhiteSpace_def



lemma isStringNumericLiteral_examples:
  "isStringNumericLiteral ''1730000000000''" "isStringNumericLiteral '' 12 ''"
  "isStringNumericLiteral ''+1.5E+10''" "isStringNumericLiteral ''0x1F''"
  "isStringNumericLiteral []" "\<not> isStringNumericLiteral ''12px''"
  "\<not> isStringNumericLiteral ''2024-01-01''" "\<not> isStringNumericLiteral ''1e''"
  by (simp_all add: number_eval)

















section \<open>Properties of the landing page\<close>

lemma Home_effect_iff:
  "Home_effect conn path = [''/dashboard''] \<longleftrightarrow> conn \<and> path = ''/''"
  "Home_effect conn path = [] \<longleftrightarrow> \<not> (conn \<and> path = ''/'')"
  by (simp_all add: Home_effect_def)





end
